theory Spec2Isabelle
  imports Complex_Main
begin

section \<open>Data model\<close>

text \<open>
  The library \<^verbatim>\<open>src/lib/index.mjs\<close> works on JavaScript strings and on
  \<^verbatim>\<open>Uint8Array\<close> buffers. A string is the list of its UTF-16 code units, a buffer
  is the list of its elements. A value that may be \<^verbatim>\<open>undefined\<close> is an option,
  \<open>None\<close> standing for \<^verbatim>\<open>undefined\<close>.
\<close>

type_synonym js_string = "nat list"
type_synonym uint8array = "nat list"

text \<open>
  Every \<^verbatim>\<open>throw\<close> of the source is one constructor, named after the message of
  the error thrown. All of them are \<^verbatim>\<open>RangeError\<close>s; the \<^verbatim>\<open>TypeError\<close>s of
  the argument checks cannot arise from the typed inputs of this model.
\<close>

datatype error =
    Alphabet_length_out_of_range
  | Invalid_alphabet
  | Invalid_ASCII_encoding
  | Invalid_Base58_encoding
  | Invalid_Base58_encoded_integer
  | Integer_cannot_be_negative
  | Integer_is_not_finite
  | Bigint_cannot_be_negative

text \<open>
  The four internal slots of a \<^verbatim>\<open>Base58Encoding\<close> object: the alphabet string and
  the three \<^verbatim>\<open>Map\<close>s the constructor fills. The keys of \<^verbatim>\<open>[[AlphabetLookup]]\<close>
  are one-character strings, represented by their code unit.
\<close>

record Base58Encoding =
  Alphabet :: js_string
  AlphabetLookup :: "nat \<rightharpoonup> nat"
  BaseMap :: "nat \<rightharpoonup> nat"
  BaseMapLookup :: "nat \<rightharpoonup> nat"

text \<open>\<^verbatim>\<open>string[i]\<close> and \<^verbatim>\<open>StringCharCodeAt(string, i)\<close>: the code unit at
  index \<open>i\<close>, and \<^verbatim>\<open>undefined\<close> (respectively \<^verbatim>\<open>NaN\<close>) past the end.\<close>

definition string_at :: "js_string \<Rightarrow> nat \<Rightarrow> nat option" where
  "string_at s i = (if i < length s then Some (s ! i) else None)"

subsection \<open>The constructor\<close>

definition IsBase58CharCode :: "nat \<Rightarrow> bool" where
  "IsBase58CharCode charCode \<longleftrightarrow>
     (charCode \<ge> 0x31 \<and> charCode \<le> 0x39 \<or>
      charCode \<ge> 0x41 \<and> charCode \<le> 0x4e \<or>
      charCode \<ge> 0x50 \<and> charCode \<le> 0x5a \<or>
      charCode \<ge> 0x61 \<and> charCode \<le> 0x7a)"

text \<open>
  The characters the spec allows in an alphabet, in the spec's words (its sections 3 and
  4.1): digits 1 to 9, uppercase A to N and P to Z, lowercase a to k and m to z, without
  \<^verbatim>\<open>0\<close>, \<^verbatim>\<open>O\<close>, \<^verbatim>\<open>I\<close> and \<^verbatim>\<open>l\<close>. This is not a function of the source: it
  is the set the check above is compared with.
\<close>

definition spec_allowed_character :: "nat \<Rightarrow> bool" where
  "spec_allowed_character charCode \<longleftrightarrow>
     (0x31 \<le> charCode \<and> charCode \<le> 0x39 \<or>
      0x41 \<le> charCode \<and> charCode \<le> 0x48 \<or>
      0x4a \<le> charCode \<and> charCode \<le> 0x4e \<or>
      0x50 \<le> charCode \<and> charCode \<le> 0x5a \<or>
      0x61 \<le> charCode \<and> charCode \<le> 0x6b \<or>
      0x6d \<le> charCode \<and> charCode \<le> 0x7a)"

text \<open>
  The loop \<^verbatim>\<open>for (let i = 0; i < 58; i++)\<close> of the constructor, on the three maps.
  Past the end of the string \<^verbatim>\<open>alphabet[i]\<close> is \<^verbatim>\<open>undefined\<close>, which is never a
  key of the lookup map, and the char code is \<^verbatim>\<open>NaN\<close>, which fails every comparison
  of \<open>IsBase58CharCode\<close>: the constructor throws.
\<close>

function fill_maps ::
  "js_string \<Rightarrow> nat \<Rightarrow> (nat \<rightharpoonup> nat) \<Rightarrow> (nat \<rightharpoonup> nat) \<Rightarrow> (nat \<rightharpoonup> nat) \<Rightarrow>
     error + ((nat \<rightharpoonup> nat) \<times> (nat \<rightharpoonup> nat) \<times> (nat \<rightharpoonup> nat))" where
  "fill_maps alphabet i alphabetLookup baseMap baseMapLookup =
     (if i < 58 then
        (case string_at alphabet i of
           None \<Rightarrow> Inl Invalid_alphabet
         | Some charCode \<Rightarrow>
             if alphabetLookup charCode \<noteq> None then Inl Invalid_alphabet
             else if \<not> IsBase58CharCode charCode then Inl Invalid_alphabet
             else fill_maps alphabet (i + 1) (alphabetLookup(charCode \<mapsto> i))
                    (baseMap(i \<mapsto> charCode)) (baseMapLookup(charCode \<mapsto> i)))
      else Inr (alphabetLookup, baseMap, baseMapLookup))"
  by pat_completeness auto
termination
  by (relation "measure (\<lambda>(a, i, l, b, bl). 58 - i)") auto

declare fill_maps.simps [simp del]

definition Base58Encoding_new :: "js_string \<Rightarrow> error + Base58Encoding" where
  "Base58Encoding_new alphabet =
     (if length alphabet = 0 \<or> length alphabet > 58 then Inl Alphabet_length_out_of_range
      else
        (case fill_maps alphabet 0 Map.empty Map.empty Map.empty of
           Inl e \<Rightarrow> Inl e
         | Inr (alphabetLookup, baseMap, baseMapLookup) \<Rightarrow>
             Inr \<lparr>Alphabet = alphabet, AlphabetLookup = alphabetLookup,
                  BaseMap = baseMap, BaseMapLookup = baseMapLookup\<rparr>))"

subsection \<open>Typed arrays and capacities\<close>

text \<open>
  Reading a \<^verbatim>\<open>Uint8Array\<close> outside its bounds gives \<^verbatim>\<open>undefined\<close>, writing outside
  them does nothing, and a write inside them stores the value modulo 256.
\<close>

definition typed_get :: "uint8array \<Rightarrow> int \<Rightarrow> nat option" where
  "typed_get bytes index =
     (if 0 \<le> index \<and> index < int (length bytes) then Some (bytes ! nat index) else None)"

definition typed_set :: "uint8array \<Rightarrow> int \<Rightarrow> nat \<Rightarrow> uint8array" where
  "typed_set bytes index v =
     (if 0 \<le> index \<and> index < int (length bytes) then bytes[nat index := v mod 256] else bytes)"

text \<open>
  \<^verbatim>\<open>FACTOR = MathLog(256) / MathLog(58)\<close> and its inverse, as real numbers: the
  rounding of the double-precision product is not modelled.
\<close>

definition FACTOR :: real where
  "FACTOR = ln 256 / ln 58"

definition INVERSE_FACTOR :: real where
  "INVERSE_FACTOR = ln 58 / ln 256"

definition GetCapacity :: "nat \<Rightarrow> nat" where
  "GetCapacity len = nat \<lceil>real len * FACTOR\<rceil>"

definition GetInverseCapacity :: "nat \<Rightarrow> nat" where
  "GetInverseCapacity len = nat \<lceil>real len * INVERSE_FACTOR\<rceil>"

text \<open>The least exponent \<open>c\<close>, counted up from the given one, with \<open>v \<le> b ^ c\<close>:
  the integer computation behind the code equations of the two capacities.\<close>

function least_exponent :: "nat \<Rightarrow> nat \<Rightarrow> nat \<Rightarrow> nat" where
  "least_exponent b v c = (if v \<le> b ^ c \<or> b \<le> 1 then c else least_exponent b v (c + 1))"
  by pat_completeness auto
termination
proof (relation "measure (\<lambda>(b, v, c). v - b ^ c)")
  show "wf (measure (\<lambda>(b, v, c). v - b ^ c))" by simp
next
  fix b v c :: nat
  assume a: "\<not> (v \<le> b ^ c \<or> b \<le> 1)"
  then have "0 < b ^ c" and "1 < b" by simp_all
  then have "b ^ c < b * b ^ c" by simp
  moreover from a have "b ^ c < v" by simp
  ultimately have "v - b * b ^ c < v - b ^ c" by (rule diff_less_mono2)
  then show "((b, v, c + 1), (b, v, c)) \<in> measure (\<lambda>(b, v, c). v - b ^ c)" by simp
qed

declare least_exponent.simps [simp del]

text \<open>The \<^verbatim>\<open>while\<close> loop counting a leading run, shared by all variants.\<close>

definition leading_run :: "('a \<Rightarrow> bool) \<Rightarrow> 'a list \<Rightarrow> nat" where
  "leading_run P s = length (takeWhile P s)"

subsection \<open>The carry loops\<close>

text \<open>
  The inner loop of the four encoders:
  \<^verbatim>\<open>while (carry || index >= offset) { carry += bytes[index] << 8;
  bytes[index] = carry % 58; carry = (carry / 58) | 0; index--; }\<close>.
  Outside the buffer \<^verbatim>\<open>undefined << 8\<close> is 0 and the store is dropped. It returns
  the final \<open>index\<close> and the buffer.
\<close>

function encode_carry :: "nat \<Rightarrow> int \<Rightarrow> int \<Rightarrow> uint8array \<Rightarrow> int \<times> uint8array" where
  "encode_carry carry index offset bytes =
     (if carry \<noteq> 0 \<or> index \<ge> offset then
        (let carry1 = carry + (case typed_get bytes index of None \<Rightarrow> 0 | Some b \<Rightarrow> b * 256)
         in encode_carry (carry1 div 58) (index - 1) offset
              (typed_set bytes index (carry1 mod 58)))
      else (index, bytes))"
  by pat_completeness auto
termination
  by (relation "measures [\<lambda>(c, i, off, b). nat (i + 1), \<lambda>(c, i, off, b). c,
        \<lambda>(c, i, off, b). nat (i - off + 1)]")
     (auto simp: typed_get_def split: if_splits)

declare encode_carry.simps [simp del]

text \<open>
  The inner loop of the four decoders:
  \<^verbatim>\<open>while (carry || index >= offset) { carry += bytes[index] * 58;
  bytes[index] = carry & 0xff; carry >>= 8; index--; }\<close>.
  Outside the buffer \<^verbatim>\<open>undefined * 58\<close> is \<^verbatim>\<open>NaN\<close>, so the carry becomes
  \<^verbatim>\<open>NaN\<close>, the store is dropped and \<^verbatim>\<open>NaN >> 8\<close> leaves the carry 0.
\<close>

function decode_carry :: "nat \<Rightarrow> int \<Rightarrow> int \<Rightarrow> uint8array \<Rightarrow> int \<times> uint8array" where
  "decode_carry carry index offset bytes =
     (if carry \<noteq> 0 \<or> index \<ge> offset then
        (case typed_get bytes index of
           None \<Rightarrow> decode_carry 0 (index - 1) offset bytes
         | Some b \<Rightarrow>
             (let carry1 = carry + b * 58
              in decode_carry (carry1 div 256) (index - 1) offset
                   (typed_set bytes index (carry1 mod 256))))
      else (index, bytes))"
  by pat_completeness auto
termination
  by (relation "measures [\<lambda>(c, i, off, b). nat (i + 1), \<lambda>(c, i, off, b). c,
        \<lambda>(c, i, off, b). nat (i - off + 1)]")
     (auto simp: typed_get_def split: if_splits)

declare decode_carry.simps [simp del]

text \<open>
  The outer loops \<^verbatim>\<open>for (let i = leadingZeros; i < length; i++)\<close>, run on the
  input behind the leading run. They return the final \<open>offset\<close> and the buffer. The
  string encoders throw on a code unit above \<^verbatim>\<open>0xff\<close>, the decoders on a symbol
  that is not a key of the given lookup map.
\<close>

fun encode_bytes_loop :: "uint8array \<Rightarrow> int \<Rightarrow> int \<Rightarrow> uint8array \<Rightarrow> int \<times> uint8array" where
  "encode_bytes_loop [] lastIndex offset bytes = (offset, bytes)"
| "encode_bytes_loop (carry # source) lastIndex offset bytes =
     (case encode_carry carry lastIndex offset bytes of
        (index, bytes') \<Rightarrow> encode_bytes_loop source lastIndex (index + 1) bytes')"

fun encode_string_loop ::
  "js_string \<Rightarrow> int \<Rightarrow> int \<Rightarrow> uint8array \<Rightarrow> error + (int \<times> uint8array)" where
  "encode_string_loop [] lastIndex offset bytes = Inr (offset, bytes)"
| "encode_string_loop (carry # string) lastIndex offset bytes =
     (if carry > 0xff then Inl Invalid_ASCII_encoding
      else
        (case encode_carry carry lastIndex offset bytes of
           (index, bytes') \<Rightarrow> encode_string_loop string lastIndex (index + 1) bytes'))"

fun decode_loop ::
  "(nat \<rightharpoonup> nat) \<Rightarrow> nat list \<Rightarrow> int \<Rightarrow> int \<Rightarrow> uint8array \<Rightarrow> error + (int \<times> uint8array)" where
  "decode_loop baseMapLookup [] lastIndex offset bytes = Inr (offset, bytes)"
| "decode_loop baseMapLookup (charCode # source) lastIndex offset bytes =
     (case baseMapLookup charCode of
        None \<Rightarrow> Inl Invalid_Base58_encoding
      | Some carry \<Rightarrow>
          (case decode_carry carry lastIndex offset bytes of
             (index, bytes') \<Rightarrow> decode_loop baseMapLookup source lastIndex (index + 1) bytes'))"

subsection \<open>Results\<close>

text \<open>
  Appending a value to a string (\<^verbatim>\<open>result += x\<close>) appends the text
  \<^verbatim>\<open>undefined\<close> when the value is \<^verbatim>\<open>undefined\<close>. Storing a value into a
  \<^verbatim>\<open>Uint8Array\<close> stores 0 for \<^verbatim>\<open>undefined\<close>, and so does
  \<^verbatim>\<open>StringFromCharCode(undefined)\<close> give the code unit 0.
\<close>

definition str :: "string \<Rightarrow> js_string" where
  "str s = map of_char s"

definition to_text :: "nat option \<Rightarrow> js_string" where
  "to_text v = (case v of None \<Rightarrow> str ''undefined'' | Some c \<Rightarrow> [c])"

definition to_uint8 :: "nat option \<Rightarrow> nat" where
  "to_uint8 v = (case v of None \<Rightarrow> 0 | Some n \<Rightarrow> n mod 256)"

section \<open>Strings and buffers\<close>

subsection \<open>Encoders\<close>

definition Encode :: "Base58Encoding \<Rightarrow> js_string \<Rightarrow> error + js_string" where
  "Encode target string =
     (if length string = 0 then Inr []
      else
        (let alphabet = Alphabet target;
             leadingZeros = leading_run (\<lambda>c. c = 0) string;
             capacity = GetCapacity (length string - leadingZeros);
             bytes = replicate capacity 0;
             lastIndex = int capacity - 1
         in case encode_string_loop (drop leadingZeros string) lastIndex lastIndex bytes of
              Inl e \<Rightarrow> Inl e
            | Inr (offset, bytes') \<Rightarrow>
                Inr (concat (replicate leadingZeros (to_text (string_at alphabet 0))) @
                     concat (map (\<lambda>i. to_text (Option.bind (typed_get bytes' i) (string_at alphabet)))
                               [offset..lastIndex]))))"

definition EncodeToBytes :: "Base58Encoding \<Rightarrow> js_string \<Rightarrow> error + uint8array" where
  "EncodeToBytes target string =
     (if length string = 0 then Inr []
      else
        (let baseMap = BaseMap target;
             leadingZeros = leading_run (\<lambda>c. c = 0) string;
             capacity = GetCapacity (length string - leadingZeros);
             bytes = replicate capacity 0;
             lastIndex = int capacity - 1
         in case encode_string_loop (drop leadingZeros string) lastIndex lastIndex bytes of
              Inl e \<Rightarrow> Inl e
            | Inr (offset, bytes') \<Rightarrow>
                Inr (replicate leadingZeros (to_uint8 (baseMap 0)) @
                     map (\<lambda>i. to_uint8 (Option.bind (typed_get bytes' i) baseMap))
                       [offset..lastIndex])))"

definition EncodeBytes :: "Base58Encoding \<Rightarrow> uint8array \<Rightarrow> uint8array" where
  "EncodeBytes target source =
     (if length source = 0 then []
      else
        (let baseMap = BaseMap target;
             leadingZeros = leading_run (\<lambda>b. b = 0) source;
             capacity = GetCapacity (length source - leadingZeros);
             bytes = replicate capacity 0;
             lastIndex = int capacity - 1
         in case encode_bytes_loop (drop leadingZeros source) lastIndex lastIndex bytes of
              (offset, bytes') \<Rightarrow>
                replicate leadingZeros (to_uint8 (baseMap 0)) @
                map (\<lambda>i. to_uint8 (Option.bind (typed_get bytes' i) baseMap))
                  [offset..lastIndex]))"

definition EncodeBytesToString :: "Base58Encoding \<Rightarrow> uint8array \<Rightarrow> js_string" where
  "EncodeBytesToString target source =
     (if length source = 0 then []
      else
        (let alphabet = Alphabet target;
             leadingZeros = leading_run (\<lambda>b. b = 0) source;
             capacity = GetCapacity (length source - leadingZeros);
             bytes = replicate capacity 0;
             lastIndex = int capacity - 1
         in case encode_bytes_loop (drop leadingZeros source) lastIndex lastIndex bytes of
              (offset, bytes') \<Rightarrow>
                concat (replicate leadingZeros (to_text (string_at alphabet 0))) @
                concat (map (\<lambda>i. to_text (Option.bind (typed_get bytes' i) (string_at alphabet)))
                          [offset..lastIndex])))"

subsection \<open>Decoders\<close>

text \<open>
  The capacity of the working buffer each decoder allocates with
  \<^verbatim>\<open>new Uint8Array(capacity)\<close>. \<open>Decode\<close> and \<open>DecodeToBytes\<close> count the
  leading run of \<^verbatim>\<open>alphabet[0]\<close> and call \<^verbatim>\<open>GetCapacity\<close>; \<open>DecodeBytes\<close> and
  \<open>DecodeBytesToString\<close> count the leading run of
  \<^verbatim>\<open>MapGet(baseMapLookup, 0)\<close> and call \<^verbatim>\<open>GetInverseCapacity\<close>.
\<close>

definition string_leadingZeros :: "Base58Encoding \<Rightarrow> js_string \<Rightarrow> nat" where
  "string_leadingZeros target encodedString =
     (let zeroChar = string_at (Alphabet target) 0
      in leading_run (\<lambda>c. Some c = zeroChar) encodedString)"

definition bytes_leadingZeros :: "Base58Encoding \<Rightarrow> uint8array \<Rightarrow> nat" where
  "bytes_leadingZeros target source =
     (let zeroCharCode = BaseMapLookup target 0
      in leading_run (\<lambda>b. Some b = zeroCharCode) source)"

definition string_decode_capacity :: "Base58Encoding \<Rightarrow> js_string \<Rightarrow> nat" where
  "string_decode_capacity target encodedString =
     GetCapacity (length encodedString - string_leadingZeros target encodedString)"

definition bytes_decode_capacity :: "Base58Encoding \<Rightarrow> uint8array \<Rightarrow> nat" where
  "bytes_decode_capacity target source =
     GetInverseCapacity (length source - bytes_leadingZeros target source)"

definition Decode :: "Base58Encoding \<Rightarrow> js_string \<Rightarrow> error + js_string" where
  "Decode target encodedString =
     (if length encodedString = 0 then Inr []
      else
        (let leadingZeros = string_leadingZeros target encodedString;
             capacity = string_decode_capacity target encodedString;
             bytes = replicate capacity 0;
             lastIndex = int capacity - 1
         in case decode_loop (BaseMapLookup target) (drop leadingZeros encodedString)
                   lastIndex lastIndex bytes of
              Inl e \<Rightarrow> Inl e
            | Inr (offset, bytes') \<Rightarrow>
                Inr (replicate leadingZeros 0 @
                     map (\<lambda>i. to_uint8 (typed_get bytes' i)) [offset..lastIndex])))"

definition DecodeToBytes :: "Base58Encoding \<Rightarrow> js_string \<Rightarrow> error + uint8array" where
  "DecodeToBytes target encodedString =
     (if length encodedString = 0 then Inr []
      else
        (let leadingZeros = string_leadingZeros target encodedString;
             capacity = string_decode_capacity target encodedString;
             bytes = replicate capacity 0;
             lastIndex = int capacity - 1
         in case decode_loop (BaseMapLookup target) (drop leadingZeros encodedString)
                   lastIndex lastIndex bytes of
              Inl e \<Rightarrow> Inl e
            | Inr (offset, bytes') \<Rightarrow>
                Inr (replicate leadingZeros 0 @
                     map (\<lambda>i. to_uint8 (typed_get bytes' i)) [offset..lastIndex])))"

definition DecodeBytes :: "Base58Encoding \<Rightarrow> uint8array \<Rightarrow> error + uint8array" where
  "DecodeBytes target source =
     (if length source = 0 then Inr []
      else
        (let leadingZeros = bytes_leadingZeros target source;
             capacity = bytes_decode_capacity target source;
             bytes = replicate capacity 0;
             lastIndex = int capacity - 1
         in case decode_loop (BaseMapLookup target) (drop leadingZeros source)
                   lastIndex lastIndex bytes of
              Inl e \<Rightarrow> Inl e
            | Inr (offset, bytes') \<Rightarrow>
                Inr (replicate leadingZeros 0 @
                     map (\<lambda>i. to_uint8 (typed_get bytes' i)) [offset..lastIndex])))"

definition DecodeBytesToString :: "Base58Encoding \<Rightarrow> uint8array \<Rightarrow> error + js_string" where
  "DecodeBytesToString target source =
     (if length source = 0 then Inr []
      else
        (let leadingZeros = bytes_leadingZeros target source;
             capacity = bytes_decode_capacity target source;
             bytes = replicate capacity 0;
             lastIndex = int capacity - 1
         in case decode_loop (BaseMapLookup target) (drop leadingZeros source)
                   lastIndex lastIndex bytes of
              Inl e \<Rightarrow> Inl e
            | Inr (offset, bytes') \<Rightarrow>
                Inr (replicate leadingZeros 0 @
                     map (\<lambda>i. to_uint8 (typed_get bytes' i)) [offset..lastIndex])))"

subsection \<open>Text\<close>

text \<open>
  Modelled from the spec: \<^verbatim>\<open>UTF8Encode\<close> and \<^verbatim>\<open>UTF8Decode\<close> are imported from the
  package \<^verbatim>\<open>@dwlib/utf8\<close>, which is not among the sources. The spec names them as the
  external collaborator \<^verbatim>\<open>textToBytes(text) -> bytes\<close> and
  \<^verbatim>\<open>bytesToText(bytes) -> text\<close>, the latter failing on invalid sequences. They are
  modelled as standard UTF-8: a surrogate pair of the string is one code point of four
  bytes; the decoder refuses truncated, overlong and out-of-range sequences. What the
  package does with an unpaired surrogate is not known; here it is encoded like any other
  code unit.
\<close>

definition utf8_bytes :: "nat \<Rightarrow> uint8array" where
  "utf8_bytes cp =
     (if cp < 0x80 then [cp]
      else if cp < 0x800 then [0xC0 + cp div 0x40, 0x80 + cp mod 0x40]
      else if cp < 0x10000 then
        [0xE0 + cp div 0x1000, 0x80 + cp div 0x40 mod 0x40, 0x80 + cp mod 0x40]
      else
        [0xF0 + cp div 0x40000, 0x80 + cp div 0x1000 mod 0x40, 0x80 + cp div 0x40 mod 0x40,
         0x80 + cp mod 0x40])"

fun UTF8Encode :: "js_string \<Rightarrow> uint8array" where
  "UTF8Encode [] = []"
| "UTF8Encode [c] = utf8_bytes c"
| "UTF8Encode (hi # lo # text) =
     (if 0xD800 \<le> hi \<and> hi < 0xDC00 \<and> 0xDC00 \<le> lo \<and> lo < 0xE000
      then utf8_bytes (0x10000 + (hi - 0xD800) * 0x400 + (lo - 0xDC00)) @ UTF8Encode text
      else utf8_bytes hi @ UTF8Encode (lo # text))"

definition utf8_length :: "nat \<Rightarrow> nat" where
  "utf8_length b0 =
     (if b0 < 0x80 then 1
      else if 0xC0 \<le> b0 \<and> b0 < 0xE0 then 2
      else if 0xE0 \<le> b0 \<and> b0 < 0xF0 then 3
      else if 0xF0 \<le> b0 \<and> b0 < 0xF8 then 4
      else 0)"

definition utf8_code_point :: "uint8array \<Rightarrow> nat" where
  "utf8_code_point sq =
     (case sq of
        [b0] \<Rightarrow> b0
      | [b0, b1] \<Rightarrow> (b0 - 0xC0) * 0x40 + (b1 - 0x80)
      | [b0, b1, b2] \<Rightarrow> (b0 - 0xE0) * 0x1000 + (b1 - 0x80) * 0x40 + (b2 - 0x80)
      | [b0, b1, b2, b3] \<Rightarrow>
          (b0 - 0xF0) * 0x40000 + (b1 - 0x80) * 0x1000 + (b2 - 0x80) * 0x40 + (b3 - 0x80)
      | _ \<Rightarrow> 0)"

definition utf16_units :: "nat \<Rightarrow> js_string" where
  "utf16_units cp =
     (if cp < 0x10000 then [cp]
      else [0xD800 + (cp - 0x10000) div 0x400, 0xDC00 + (cp - 0x10000) mod 0x400])"

text \<open>The first sequence of a buffer: its code point and its length, if it is
  well formed.\<close>

definition utf8_next :: "uint8array \<Rightarrow> (nat \<times> nat) option" where
  "utf8_next bytes =
     (let n = utf8_length (hd bytes);
          sq = take n bytes;
          cp = utf8_code_point sq
      in if 0 < n \<and> n \<le> length bytes
            \<and> list_all (\<lambda>b. 0x80 \<le> b \<and> b < 0xC0) (tl sq)
            \<and> utf8_bytes cp = sq \<and> (cp < 0xD800 \<or> 0xE000 \<le> cp) \<and> cp \<le> 0x10FFFF
         then Some (cp, n) else None)"

function UTF8Decode :: "uint8array \<Rightarrow> js_string option" where
  "UTF8Decode bytes =
     (if bytes = [] then Some []
      else
        (case utf8_next bytes of
           None \<Rightarrow> None
         | Some (cp, n) \<Rightarrow>
             map_option (\<lambda>text. utf16_units cp @ text) (UTF8Decode (drop n bytes))))"
  by pat_completeness auto
termination
  by (relation "measure length") (auto simp: utf8_next_def Let_def split: if_splits)

declare UTF8Decode.simps [simp del]

text \<open>The error of \<^verbatim>\<open>UTF8Decode\<close> is the collaborator's own; the text decoders
  return \<open>None\<close> for it.\<close>

definition EncodeText :: "Base58Encoding \<Rightarrow> js_string \<Rightarrow> js_string" where
  "EncodeText target text = EncodeBytesToString target (UTF8Encode text)"

definition EncodeTextToBytes :: "Base58Encoding \<Rightarrow> js_string \<Rightarrow> uint8array" where
  "EncodeTextToBytes target text = EncodeBytes target (UTF8Encode text)"

definition DecodeText :: "Base58Encoding \<Rightarrow> js_string \<Rightarrow> error + js_string option" where
  "DecodeText target encodedString =
     (case DecodeToBytes target encodedString of
        Inl e \<Rightarrow> Inl e
      | Inr buffer \<Rightarrow> Inr (UTF8Decode buffer))"

definition DecodeBytesToText :: "Base58Encoding \<Rightarrow> uint8array \<Rightarrow> error + js_string option" where
  "DecodeBytesToText target buffer =
     (case DecodeBytes target buffer of
        Inl e \<Rightarrow> Inl e
      | Inr bytes \<Rightarrow> Inr (UTF8Decode bytes))"

section \<open>Integers\<close>

text \<open>
  A JavaScript number is \<^verbatim>\<open>NaN\<close>, an infinity or a finite value. The integer
  routines compute on non-negative integers; the model computes on natural numbers,
  which is what the double-precision arithmetic of the source computes as long as
  every value stays below \<open>2 ^ 53\<close>.
\<close>

datatype js_number = NaN | PosInfinity | NegInfinity | Finite rat

datatype integer_or_infinity = MinusInfinity | Integer int | PlusInfinity

text \<open>
  Modelled from the spec: \<^verbatim>\<open>ToIntegerOrInfinity\<close> is imported from the package
  \<^verbatim>\<open>@dwlib/abstract\<close>, which is not among the sources (the spec's generic type
  coercion of caller inputs). It is taken to be the ECMAScript abstract operation of
  that name: \<^verbatim>\<open>NaN\<close> becomes 0, an infinity stays, a finite number is truncated
  towards zero.
\<close>

definition ToIntegerOrInfinity :: "js_number \<Rightarrow> integer_or_infinity" where
  "ToIntegerOrInfinity argument =
     (case argument of
        NaN \<Rightarrow> Integer 0
      | PosInfinity \<Rightarrow> PlusInfinity
      | NegInfinity \<Rightarrow> MinusInfinity
      | Finite r \<Rightarrow> Integer (if r < 0 then \<lceil>r\<rceil> else \<lfloor>r\<rfloor>))"

text \<open>
  The loop \<^verbatim>\<open>while (carry) { ... }\<close> of \<open>EncodeInt\<close> and of \<open>EncodeBigInt\<close>, which
  differ in the number type only. For \<open>EncodeBigInt\<close> the loop is exact on every input.
  For \<open>EncodeInt\<close> it is what the source computes for \<open>carry < 2 ^ 53\<close>, where the
  double \<^verbatim>\<open>MathFloor(carry / 58)\<close> is the integer quotient; above that bound the
  source rounds and the model does not.
\<close>

function EncodeInt_loop :: "js_string \<Rightarrow> nat \<Rightarrow> js_string \<Rightarrow> js_string" where
  "EncodeInt_loop alphabet carry result =
     (if carry \<noteq> 0 then
        EncodeInt_loop alphabet (carry div 58)
          (to_text (string_at alphabet (carry mod 58)) @ result)
      else result)"
  by pat_completeness auto
termination
  by (relation "measure (\<lambda>(a, carry, r). carry)") auto

declare EncodeInt_loop.simps [simp del]

text \<open>\<^verbatim>\<open>return alphabet[0]\<close> is a one-character string for every alphabet the
  constructor accepts.\<close>

definition EncodeInt :: "Base58Encoding \<Rightarrow> nat \<Rightarrow> js_string" where
  "EncodeInt target integer =
     (let alphabet = Alphabet target
      in if integer = 0 then to_text (string_at alphabet 0)
         else EncodeInt_loop alphabet integer [])"

definition EncodeBigInt :: "Base58Encoding \<Rightarrow> nat \<Rightarrow> js_string" where
  "EncodeBigInt target bigint =
     (let alphabet = Alphabet target
      in if bigint = 0 then to_text (string_at alphabet 0)
         else EncodeInt_loop alphabet bigint [])"

text \<open>
  The loop \<^verbatim>\<open>for (let i = leadingZeros; i < length; i++)\<close> of \<open>DecodeInt\<close> and of
  \<open>DecodeBigInt\<close>. \<open>None\<close> is the exit at a symbol that is not a key of the lookup map:
  \<^verbatim>\<open>return NaN\<close> in the first, a \<^verbatim>\<open>throw\<close> in the second. Which of the two
  exits is taken does not depend on the arithmetic. The value returned is exact for
  \<open>DecodeBigInt\<close>; for \<open>DecodeInt\<close> it is the source's value as long as every
  intermediate result stays below \<open>2 ^ 53\<close>, above which the source rounds.
\<close>

fun DecodeInt_loop :: "(nat \<rightharpoonup> nat) \<Rightarrow> js_string \<Rightarrow> nat \<Rightarrow> nat option" where
  "DecodeInt_loop alphabetLookup [] result = Some result"
| "DecodeInt_loop alphabetLookup (char # encodedInteger) result =
     (case alphabetLookup char of
        None \<Rightarrow> None
      | Some charIndex \<Rightarrow> DecodeInt_loop alphabetLookup encodedInteger (result * 58 + charIndex))"

definition DecodeInt :: "Base58Encoding \<Rightarrow> js_string \<Rightarrow> js_number" where
  "DecodeInt target encodedInteger =
     (if length encodedInteger = 0 then NaN
      else
        (let leadingZeros = string_leadingZeros target encodedInteger
         in case DecodeInt_loop (AlphabetLookup target) (drop leadingZeros encodedInteger) 0 of
              None \<Rightarrow> NaN
            | Some result \<Rightarrow> Finite (of_nat result)))"

definition DecodeBigInt :: "Base58Encoding \<Rightarrow> js_string \<Rightarrow> error + nat" where
  "DecodeBigInt target encodedInteger =
     (if length encodedInteger = 0 then Inl Invalid_Base58_encoded_integer
      else
        (let leadingZeros = string_leadingZeros target encodedInteger
         in case DecodeInt_loop (AlphabetLookup target) (drop leadingZeros encodedInteger) 0 of
              None \<Rightarrow> Inl Invalid_Base58_encoded_integer
            | Some result \<Rightarrow> Inr result))"

text \<open>The methods \<^verbatim>\<open>encodeInt\<close> and \<^verbatim>\<open>encodeBigInt\<close> check their argument
  before they call the routines above.\<close>

definition encodeInt :: "Base58Encoding \<Rightarrow> js_number \<Rightarrow> error + js_string" where
  "encodeInt this integer =
     (case ToIntegerOrInfinity integer of
        MinusInfinity \<Rightarrow> Inl Integer_cannot_be_negative
      | Integer i \<Rightarrow>
          if i < 0 then Inl Integer_cannot_be_negative else Inr (EncodeInt this (nat i))
      | PlusInfinity \<Rightarrow> Inl Integer_is_not_finite)"

definition encodeBigInt :: "Base58Encoding \<Rightarrow> int \<Rightarrow> error + js_string" where
  "encodeBigInt this bigint =
     (if bigint < 0 then Inl Bigint_cannot_be_negative
      else Inr (EncodeBigInt this (nat bigint)))"

section \<open>The presets\<close>

definition BASIC_alphabet :: js_string where
  "BASIC_alphabet = str ''123456789ABCDEFGHJKLMNPQRSTUVWXYZabcdefghijkmnopqrstuvwxyz''"

definition DARKWOLF_alphabet :: js_string where
  "DARKWOLF_alphabet = str ''AveDarkwo1f23456789BCEFGHJKLMNPQRSTUVWXYZbcdghijmnpqstuxyz''"

definition BASIC :: Base58Encoding where
  "BASIC = projr (Base58Encoding_new BASIC_alphabet)"

definition DARKWOLF :: Base58Encoding where
  "DARKWOLF = projr (Base58Encoding_new DARKWOLF_alphabet)"

section \<open>Capacities as integer computations\<close>

text \<open>
  The ceiling of \<open>n * ln a / ln b\<close> is the least exponent \<open>c\<close> with
  \<open>a ^ n \<le> b ^ c\<close>, which gives both capacities an equation on natural numbers.
\<close>

lemma least_exponent_covers: "1 < b \<Longrightarrow> v \<le> b ^ least_exponent b v c"
proof (induction b v c rule: least_exponent.induct)
  case (1 b v c)
  show ?case
  proof (cases "v \<le> b ^ c \<or> b \<le> 1")
    case True
    with 1(2) show ?thesis by (simp add: least_exponent.simps)
  next
    case False
    with 1 have "v \<le> b ^ least_exponent b v (c + 1)" by simp
    with False show ?thesis by (simp add: least_exponent.simps)
  qed
qed

lemma least_exponent_least:
  "1 < b \<Longrightarrow> c \<le> k \<Longrightarrow> k < least_exponent b v c \<Longrightarrow> b ^ k < v"
proof (induction b v c rule: least_exponent.induct)
  case (1 b v c)
  show ?case
  proof (cases "v \<le> b ^ c \<or> b \<le> 1")
    case True
    then have "least_exponent b v c = c" by (simp add: least_exponent.simps)
    with 1(3,4) show ?thesis by simp
  next
    case False
    then have eq: "least_exponent b v c = least_exponent b v (c + 1)"
      by (simp add: least_exponent.simps)
    show ?thesis
    proof (cases "k = c")
      case True
      with False show ?thesis by simp
    next
      case False
      with 1(3) have "c + 1 \<le> k" by simp
      with 1(1)[OF \<open>\<not> (v \<le> b ^ c \<or> b \<le> 1)\<close> 1(2)] 1(4) eq show ?thesis by simp
    qed
  qed
qed

lemma scaled_le_iff:
  fixes a b :: nat
  assumes "1 < a" "1 < b"
  shows "real n * (ln (real a) / ln (real b)) \<le> real c \<longleftrightarrow> a ^ n \<le> b ^ c"
proof -
  from assms have lb: "0 < ln (real b)" by simp
  have "real n * (ln (real a) / ln (real b)) \<le> real c
          \<longleftrightarrow> real n * ln (real a) \<le> real c * ln (real b)"
    using lb by (simp add: pos_divide_le_eq)
  also have "\<dots> \<longleftrightarrow> ln (real a ^ n) \<le> ln (real b ^ c)"
    using assms by (simp add: ln_realpow)
  also have "\<dots> \<longleftrightarrow> real a ^ n \<le> real b ^ c"
    using assms by (intro ln_le_cancel_iff) simp_all
  also have "\<dots> \<longleftrightarrow> a ^ n \<le> b ^ c"
    by (metis of_nat_le_iff of_nat_power)
  finally show ?thesis .
qed

lemma ceiling_scaled:
  fixes a b :: nat
  assumes "1 < a" "1 < b"
  shows "nat \<lceil>real n * (ln (real a) / ln (real b))\<rceil> = least_exponent b (a ^ n) 0"
proof -
  define x where "x = real n * (ln (real a) / ln (real b))"
  define c where "c = least_exponent b (a ^ n) 0"
  have iff: "x \<le> real k \<longleftrightarrow> a ^ n \<le> b ^ k" for k
    unfolding x_def by (rule scaled_le_iff[OF assms])
  have "a ^ n \<le> b ^ c"
    unfolding c_def by (rule least_exponent_covers[OF assms(2)])
  with iff[of c] have up: "x \<le> real c" by blast
  have low: "real_of_int (int c) - 1 < x"
  proof (cases "c = 0")
    case True
    have "0 \<le> ln (real a)" and "0 \<le> ln (real b)" using assms by simp_all
    then have "0 \<le> x" unfolding x_def by simp
    with True show ?thesis by simp
  next
    case False
    then have "c - 1 < least_exponent b (a ^ n) 0" unfolding c_def by simp
    with assms(2) have "b ^ (c - 1) < a ^ n"
      by (intro least_exponent_least[where c = 0]) simp_all
    then have "\<not> a ^ n \<le> b ^ (c - 1)" by simp
    with iff[of "c - 1"] have "\<not> x \<le> real (c - 1)" by blast
    then have "real (c - 1) < x" by simp
    moreover from False have "real (c - 1) = real c - 1" by simp
    ultimately show ?thesis by simp
  qed
  from low up have "\<lceil>x\<rceil> = int c" by (intro ceiling_unique) simp_all
  then show ?thesis unfolding x_def c_def by simp
qed

lemma GetCapacity_code [code]: "GetCapacity len = least_exponent 58 (256 ^ len) 0"
  unfolding GetCapacity_def FACTOR_def using ceiling_scaled[of 256 58 len] by simp

lemma GetInverseCapacity_code [code]: "GetInverseCapacity len = least_exponent 256 (58 ^ len) 0"
  unfolding GetInverseCapacity_def INVERSE_FACTOR_def using ceiling_scaled[of 58 256 len] by simp

section \<open>The constructor's result\<close>

text \<open>
  What the loop of the constructor has checked and stored when it returns: the string has
  58 distinct characters that pass \<open>IsBase58CharCode\<close>, and the three maps hold
  exactly the positions of these characters.
\<close>

lemma fill_maps_done: "\<not> i < 58 \<Longrightarrow> fill_maps a i al bm bml = Inr (al, bm, bml)"
  by (simp add: fill_maps.simps[of a i])

lemma fill_maps_step:
  "i < 58 \<Longrightarrow> fill_maps a i al bm bml =
     (if i < length a \<and> al (a ! i) = None \<and> IsBase58CharCode (a ! i)
      then fill_maps a (i + 1) (al(a ! i \<mapsto> i)) (bm(i \<mapsto> a ! i)) (bml(a ! i \<mapsto> i))
      else Inl Invalid_alphabet)"
  by (simp add: fill_maps.simps[of a i] string_at_def)

lemma fill_maps_error: "fill_maps a i al bm bml = Inl e \<Longrightarrow> e = Invalid_alphabet"
proof (induction a i al bm bml rule: fill_maps.induct)
  case (1 a i al bm bml)
  show ?case
  proof (cases "i < 58")
    case False
    with 1(2) show ?thesis by (simp add: fill_maps_done)
  next
    case True
    show ?thesis
    proof (cases "i < length a \<and> al (a ! i) = None \<and> IsBase58CharCode (a ! i)")
      case False
      with True 1(2) show ?thesis by (simp add: fill_maps_step)
    next
      case ok: True
      with True 1(2) have rec: "fill_maps a (i + 1) (al(a ! i \<mapsto> i)) (bm(i \<mapsto> a ! i)) (bml(a ! i \<mapsto> i)) = Inl e"
        by (simp add: fill_maps_step)
      from ok have sa: "string_at a i = Some (a ! i)" by (simp add: string_at_def)
      from ok have n1: "\<not> al (a ! i) \<noteq> None" and n2: "\<not> \<not> IsBase58CharCode (a ! i)"
        by simp_all
      from rec show ?thesis by (rule 1(1)[OF True sa n1 n2])
    qed
  qed
qed

lemma fill_maps_success:
  "fill_maps a i al bm bml = Inr (al', bm', bml') \<Longrightarrow>
     (\<forall>j. i \<le> j \<and> j < 58 \<longrightarrow>
        j < length a \<and> IsBase58CharCode (a ! j) \<and> al (a ! j) = None \<and>
        al' (a ! j) = Some j \<and> bm' j = Some (a ! j) \<and> bml' (a ! j) = Some j \<and>
        (\<forall>k. i \<le> k \<and> k < j \<longrightarrow> a ! k \<noteq> a ! j)) \<and>
     (\<forall>c. (\<forall>j. i \<le> j \<and> j < 58 \<longrightarrow> a ! j \<noteq> c) \<longrightarrow> al' c = al c \<and> bml' c = bml c) \<and>
     (\<forall>k. \<not> (i \<le> k \<and> k < 58) \<longrightarrow> bm' k = bm k)"
proof (induction a i al bm bml rule: fill_maps.induct)
  case (1 a i al bm bml)
  show ?case
  proof (cases "i < 58")
    case False
    with 1(2) show ?thesis by (simp add: fill_maps_done)
  next
    case True
    let ?ch = "a ! i"
    from True 1(2) have ok: "i < length a" "al ?ch = None" "IsBase58CharCode ?ch"
      and rec: "fill_maps a (i + 1) (al(?ch \<mapsto> i)) (bm(i \<mapsto> ?ch)) (bml(?ch \<mapsto> i)) = Inr (al', bm', bml')"
      by (simp_all add: fill_maps_step split: if_splits)
    from ok have sa: "string_at a i = Some ?ch" by (simp add: string_at_def)
    have IH0:
      "(\<forall>j. i + 1 \<le> j \<and> j < 58 \<longrightarrow>
        j < length a \<and> IsBase58CharCode (a ! j) \<and> (al(?ch \<mapsto> i)) (a ! j) = None \<and>
        al' (a ! j) = Some j \<and> bm' j = Some (a ! j) \<and> bml' (a ! j) = Some j \<and>
        (\<forall>k. i + 1 \<le> k \<and> k < j \<longrightarrow> a ! k \<noteq> a ! j)) \<and>
      (\<forall>c. (\<forall>j. i + 1 \<le> j \<and> j < 58 \<longrightarrow> a ! j \<noteq> c) \<longrightarrow>
         al' c = (al(?ch \<mapsto> i)) c \<and> bml' c = (bml(?ch \<mapsto> i)) c) \<and>
      (\<forall>k. \<not> (i + 1 \<le> k \<and> k < 58) \<longrightarrow> bm' k = (bm(i \<mapsto> ?ch)) k)"
    proof -
      from ok have n1: "\<not> al ?ch \<noteq> None" and n2: "\<not> \<not> IsBase58CharCode ?ch" by simp_all
      from rec have "fill_maps a (i + 1) (al(?ch \<mapsto> i)) (bm(i \<mapsto> ?ch)) (bml(?ch \<mapsto> i)) = Inr (al', bm', bml')" .
      then show ?thesis by (rule 1(1)[OF True sa n1 n2])
    qed
    note IH = conjunct1[OF IH0] conjunct1[OF conjunct2[OF IH0]] conjunct2[OF conjunct2[OF IH0]]
    have later: "a ! j \<noteq> ?ch" if "i + 1 \<le> j" "j < 58" for j
      using IH(1) that by (auto split: if_splits)
    have here: "al' ?ch = Some i" "bml' ?ch = Some i" "bm' i = Some ?ch"
      using IH(2) IH(3) later by auto
    have A: "j < length a \<and> IsBase58CharCode (a ! j) \<and> al (a ! j) = None \<and>
        al' (a ! j) = Some j \<and> bm' j = Some (a ! j) \<and> bml' (a ! j) = Some j \<and>
        (\<forall>k. i \<le> k \<and> k < j \<longrightarrow> a ! k \<noteq> a ! j)" if "i \<le> j" "j < 58" for j
    proof (cases "j = i")
      case True
      with ok here show ?thesis by simp
    next
      case False
      with that have j: "i + 1 \<le> j" by simp
      with IH(1) that(2) have f: "j < length a" "IsBase58CharCode (a ! j)"
        "(al(?ch \<mapsto> i)) (a ! j) = None" "al' (a ! j) = Some j" "bm' j = Some (a ! j)"
        "bml' (a ! j) = Some j" "\<forall>k. i + 1 \<le> k \<and> k < j \<longrightarrow> a ! k \<noteq> a ! j"
        by blast+
      from f(3) have "al (a ! j) = None" by (simp split: if_splits)
      moreover have "a ! k \<noteq> a ! j" if "i \<le> k" "k < j" for k
      proof (cases "k = i")
        case True
        with later[OF j \<open>j < 58\<close>] show ?thesis by simp
      next
        case False
        with that f(7) show ?thesis by simp
      qed
      ultimately show ?thesis using f by blast
    qed
    have B: "al' c = al c \<and> bml' c = bml c" if "\<forall>j. i \<le> j \<and> j < 58 \<longrightarrow> a ! j \<noteq> c" for c
    proof -
      from that True have "?ch \<noteq> c" by blast
      moreover from that have "\<forall>j. i + 1 \<le> j \<and> j < 58 \<longrightarrow> a ! j \<noteq> c" by simp
      ultimately show ?thesis using IH(2) by simp
    qed
    have C: "bm' k = bm k" if "\<not> (i \<le> k \<and> k < 58)" for k
    proof -
      from that True have "k \<noteq> i" and "\<not> (i + 1 \<le> k \<and> k < 58)" by auto
      with IH(3) show ?thesis by simp
    qed
    from A B C show ?thesis by blast
  qed
qed

lemma fill_maps_accepts:
  "\<lbrakk>58 \<le> length a;
    \<forall>j. i \<le> j \<and> j < 58 \<longrightarrow> IsBase58CharCode (a ! j) \<and> al (a ! j) = None;
    \<forall>j k. i \<le> k \<and> k < j \<and> j < 58 \<longrightarrow> a ! k \<noteq> a ! j\<rbrakk>
   \<Longrightarrow> \<exists>r. fill_maps a i al bm bml = Inr r"
proof (induction a i al bm bml rule: fill_maps.induct)
  case (1 a i al bm bml)
  show ?case
  proof (cases "i < 58")
    case False
    then show ?thesis by (simp add: fill_maps_done)
  next
    case True
    with 1(2,3) have ok: "i < length a" "al (a ! i) = None" "IsBase58CharCode (a ! i)"
      by auto
    then have sa: "string_at a i = Some (a ! i)" by (simp add: string_at_def)
    from ok have n1: "\<not> al (a ! i) \<noteq> None" and n2: "\<not> \<not> IsBase58CharCode (a ! i)"
      by simp_all
    have p2: "\<forall>j. i + 1 \<le> j \<and> j < 58 \<longrightarrow>
        IsBase58CharCode (a ! j) \<and> (al(a ! i \<mapsto> i)) (a ! j) = None"
    proof (intro allI impI)
      fix j assume j: "i + 1 \<le> j \<and> j < 58"
      with 1(3) have "IsBase58CharCode (a ! j)" "al (a ! j) = None" by simp_all
      moreover from j 1(4) have "a ! i \<noteq> a ! j" by simp
      ultimately show "IsBase58CharCode (a ! j) \<and> (al(a ! i \<mapsto> i)) (a ! j) = None" by simp
    qed
    from 1(4) have p3: "\<forall>j k. i + 1 \<le> k \<and> k < j \<and> j < 58 \<longrightarrow> a ! k \<noteq> a ! j" by simp
    have step: "fill_maps a i al bm bml =
        fill_maps a (i + 1) (al(a ! i \<mapsto> i)) (bm(i \<mapsto> a ! i)) (bml(a ! i \<mapsto> i))"
      unfolding fill_maps_step[OF True] using ok by simp
    from 1(1)[OF True sa n1 n2 1(2) p2 p3] show ?thesis unfolding step .
  qed
qed

lemma Base58Encoding_new_slots:
  assumes "Base58Encoding_new a = Inr t"
  shows "Alphabet t = a" and "length a = 58" and "distinct a"
    and "\<And>c. c \<in> set a \<Longrightarrow> IsBase58CharCode c"
    and "\<And>i. i < 58 \<Longrightarrow> AlphabetLookup t (a ! i) = Some i"
    and "\<And>i. i < 58 \<Longrightarrow> BaseMapLookup t (a ! i) = Some i"
    and "\<And>i. i < 58 \<Longrightarrow> BaseMap t i = Some (a ! i)"
    and "\<And>c. c \<notin> set a \<Longrightarrow> AlphabetLookup t c = None"
    and "\<And>c. c \<notin> set a \<Longrightarrow> BaseMapLookup t c = None"
    and "\<And>k. 58 \<le> k \<Longrightarrow> BaseMap t k = None"
proof -
  from assms have len: "length a \<noteq> 0" "length a \<le> 58"
    by (auto simp: Base58Encoding_new_def split: if_splits)
  with assms obtain al bm bml where
    fm: "fill_maps a 0 Map.empty Map.empty Map.empty = Inr (al, bm, bml)" and
    t: "t = \<lparr>Alphabet = a, AlphabetLookup = al, BaseMap = bm, BaseMapLookup = bml\<rparr>"
    by (auto simp: Base58Encoding_new_def split: if_splits sum.splits)
  note F = fill_maps_success[OF fm]
  have mem: "j < length a \<and> IsBase58CharCode (a ! j) \<and> al (a ! j) = Some j \<and>
      bm j = Some (a ! j) \<and> bml (a ! j) = Some j \<and> (\<forall>k. k < j \<longrightarrow> a ! k \<noteq> a ! j)"
    if "j < 58" for j
    using F that by simp
  from mem[of 57] len show l58: "length a = 58" by simp
  from t show "Alphabet t = a" by simp
  show d: "distinct a"
    unfolding distinct_conv_nth
  proof (intro allI impI)
    fix i j assume "i < length a" "j < length a" "i \<noteq> j"
    with l58 mem[of i] mem[of j] show "a ! i \<noteq> a ! j"
      by (cases "i < j") (auto simp: neq_iff)
  qed
  show "IsBase58CharCode c" if "c \<in> set a" for c
    using that mem l58 by (auto simp: in_set_conv_nth)
  show "AlphabetLookup t (a ! i) = Some i" if "i < 58" for i using mem[OF that] t by simp
  show "BaseMapLookup t (a ! i) = Some i" if "i < 58" for i using mem[OF that] t by simp
  show "BaseMap t i = Some (a ! i)" if "i < 58" for i using mem[OF that] t by simp
  have out: "al c = None \<and> bml c = None" if "c \<notin> set a" for c
  proof -
    from that l58 have "\<forall>j. 0 \<le> j \<and> j < 58 \<longrightarrow> a ! j \<noteq> c" by (auto simp: in_set_conv_nth)
    with F show ?thesis by simp
  qed
  show "AlphabetLookup t c = None" if "c \<notin> set a" for c using out[OF that] t by simp
  show "BaseMapLookup t c = None" if "c \<notin> set a" for c using out[OF that] t by simp
  show "BaseMap t k = None" if "58 \<le> k" for k using F that t by simp
qed

lemma Base58Encoding_new_accepts:
  assumes "length a = 58" "distinct a" "\<And>c. c \<in> set a \<Longrightarrow> IsBase58CharCode c"
  shows "\<exists>t. Base58Encoding_new a = Inr t"
proof -
  have "\<exists>r. fill_maps a 0 Map.empty Map.empty Map.empty = Inr r"
  proof (rule fill_maps_accepts)
    show "58 \<le> length a" using assms(1) by simp
    show "\<forall>j. 0 \<le> j \<and> j < 58 \<longrightarrow> IsBase58CharCode (a ! j) \<and> Map.empty (a ! j) = None"
      using assms(1,3) by simp
    show "\<forall>j k. 0 \<le> k \<and> k < j \<and> j < 58 \<longrightarrow> a ! k \<noteq> a ! j"
      using assms(1,2) by (auto simp: distinct_conv_nth)
  qed
  then show ?thesis using assms(1) by (auto simp: Base58Encoding_new_def)
qed

lemma Base58Encoding_new_error:
  assumes "Base58Encoding_new a = Inl e" "length a \<noteq> 0" "length a \<le> 58"
  shows "e = Invalid_alphabet"
proof -
  from assms obtain "fill_maps a 0 Map.empty Map.empty Map.empty = Inl e"
    by (auto simp: Base58Encoding_new_def split: sum.splits)
  then show ?thesis by (rule fill_maps_error)
qed

lemma Base58Encoding_new_zeroChar:
  assumes "Base58Encoding_new a = Inr t"
  shows "string_at (Alphabet t) 0 = Some (a ! 0)" and "a ! 0 \<in> set a"
  using Base58Encoding_new_slots(1,2)[OF assms] by (simp_all add: string_at_def)

lemma Base58Encoding_new_maps:
  assumes "Base58Encoding_new a = Inr t"
  shows "AlphabetLookup t = map_of (zip a [0..<58])"
    and "BaseMapLookup t = map_of (zip a [0..<58])"
    and "BaseMap t = map_of (zip [0..<58] a)"
proof -
  note S = Base58Encoding_new_slots[OF assms]
  have chars: "AlphabetLookup t c = map_of (zip a [0..<58]) c \<and>
      BaseMapLookup t c = map_of (zip a [0..<58]) c" for c
  proof (cases "c \<in> set a")
    case True
    then obtain i where i: "i < 58" "a ! i = c" using S(2) by (auto simp: in_set_conv_nth)
    have "map_of (zip a [0..<58]) (a ! i) = Some ([0..<58] ! i)"
      by (rule map_of_zip_nth) (use S(2,3) i(1) in simp_all)
    with i S(5)[OF i(1)] S(6)[OF i(1)] show ?thesis by simp
  next
    case False
    then have "map_of (zip a [0..<58]) c = None" using S(2) by (simp add: map_of_zip_is_None)
    with False S(8,9) show ?thesis by simp
  qed
  have digits: "BaseMap t k = map_of (zip [0..<58] a) k" for k
  proof (cases "k < 58")
    case True
    have "map_of (zip [0..<58] a) ([0..<58] ! k) = Some (a ! k)"
      by (rule map_of_zip_nth) (use S(2) True in simp_all)
    with True S(7)[OF True] show ?thesis by simp
  next
    case False
    then have "map_of (zip [0..<58] a) k = None" using S(2) by (simp add: map_of_zip_is_None)
    with False S(10)[of k] show ?thesis by simp
  qed
  from chars show "AlphabetLookup t = map_of (zip a [0..<58])" by blast
  from chars show "BaseMapLookup t = map_of (zip a [0..<58])" by blast
  from digits show "BaseMap t = map_of (zip [0..<58] a)" by blast
qed

lemma Base58Encoding_new_iff:
  "(\<exists>t. Base58Encoding_new a = Inr t) \<longleftrightarrow>
     length a = 58 \<and> distinct a \<and> (\<forall>c \<in> set a. IsBase58CharCode c)"
  using Base58Encoding_new_slots(2,3,4)[of a] Base58Encoding_new_accepts[of a] by blast

lemma Base58Encoding_new_short:
  assumes "1 \<le> length a" and "length a \<le> 57"
  shows "Base58Encoding_new a = Inl Invalid_alphabet"
proof (cases "Base58Encoding_new a")
  case (Inl e)
  from assms have ne: "length a \<noteq> 0" and le: "length a \<le> 58" by auto
  from Base58Encoding_new_error[OF Inl ne le] Inl show ?thesis by simp
next
  case (Inr t)
  with Base58Encoding_new_iff[of a] assms show ?thesis by auto
qed

text \<open>The check of the source admits the spec's characters and two more,
  \<^verbatim>\<open>I\<close> (0x49) and \<^verbatim>\<open>l\<close> (0x6c).\<close>

lemma IsBase58CharCode_spec:
  "IsBase58CharCode c \<longleftrightarrow> spec_allowed_character c \<or> c = 0x49 \<or> c = 0x6c"
  unfolding IsBase58CharCode_def spec_allowed_character_def by presburger

section \<open>Facts about the loops\<close>

text \<open>The two carry loops unfolded once, without the local binding: the form in
  which the simplifier runs them on concrete inputs.\<close>

lemma encode_carry_unfold:
  "encode_carry carry index offset bytes =
     (if carry \<noteq> 0 \<or> offset \<le> index then
        encode_carry
          ((carry + (case typed_get bytes index of None \<Rightarrow> 0 | Some b \<Rightarrow> b * 256)) div 58)
          (index - 1) offset
          (typed_set bytes index
             ((carry + (case typed_get bytes index of None \<Rightarrow> 0 | Some b \<Rightarrow> b * 256)) mod 58))
      else (index, bytes))"
  by (subst encode_carry.simps) (simp add: Let_def)

lemma decode_carry_unfold:
  "decode_carry carry index offset bytes =
     (if carry \<noteq> 0 \<or> offset \<le> index then
        (case typed_get bytes index of
           None \<Rightarrow> decode_carry 0 (index - 1) offset bytes
         | Some b \<Rightarrow>
             decode_carry ((carry + b * 58) div 256) (index - 1) offset
               (typed_set bytes index ((carry + b * 58) mod 256)))
      else (index, bytes))"
  by (subst decode_carry.simps) (simp add: Let_def split: option.splits)

lemma drop_leading_run: "drop (leading_run P s) s = dropWhile P s"
  by (simp add: leading_run_def dropWhile_eq_drop)

lemma set_dropWhile_keeps: "c \<in> set s \<Longrightarrow> \<not> P c \<Longrightarrow> c \<in> set (dropWhile P s)"
  by (induction s) auto

lemma decode_loop_rejects:
  "\<exists>c \<in> set source. baseMapLookup c = None \<Longrightarrow>
     decode_loop baseMapLookup source lastIndex offset bytes = Inl Invalid_Base58_encoding"
proof (induction source arbitrary: offset bytes)
  case Nil
  then show ?case by simp
next
  case (Cons c source)
  show ?case
  proof (cases "baseMapLookup c")
    case None
    then show ?thesis by simp
  next
    case (Some carry)
    with Cons.prems have "\<exists>c \<in> set source. baseMapLookup c = None" by auto
    from Cons.IH[OF this] Some show ?thesis by (simp split: prod.splits)
  qed
qed

lemma DecodeInt_loop_rejects:
  "\<exists>c \<in> set s. alphabetLookup c = None \<Longrightarrow> DecodeInt_loop alphabetLookup s result = None"
  by (induction s arbitrary: result) (auto split: option.splits)

lemma DecodeInt_loop_skips_zeros:
  "alphabetLookup z = Some 0 \<Longrightarrow>
     DecodeInt_loop alphabetLookup (dropWhile (\<lambda>c. Some c = Some z) s) 0 =
     DecodeInt_loop alphabetLookup s 0"
  by (induction s) simp_all

lemma DecodeInt_loop_EncodeInt_loop:
  "Base58Encoding_new a = Inr t \<Longrightarrow>
     DecodeInt_loop (AlphabetLookup t) (EncodeInt_loop a n result) 0 =
     DecodeInt_loop (AlphabetLookup t) result n"
proof (induction a n result rule: EncodeInt_loop.induct)
  case (1 alphabet carry result)
  note S = Base58Encoding_new_slots[OF 1(2)]
  show ?case
  proof (cases "carry = 0")
    case True
    then show ?thesis by (simp add: EncodeInt_loop.simps[of alphabet 0])
  next
    case False
    let ?d = "carry mod 58"
    have sym: "to_text (string_at alphabet ?d) = [alphabet ! ?d]"
      using S(2) by (simp add: to_text_def string_at_def)
    have "EncodeInt_loop alphabet carry result =
        EncodeInt_loop alphabet (carry div 58) (to_text (string_at alphabet ?d) @ result)"
      using False by (simp add: EncodeInt_loop.simps[of alphabet carry])
    then have "DecodeInt_loop (AlphabetLookup t) (EncodeInt_loop alphabet carry result) 0 =
        DecodeInt_loop (AlphabetLookup t) (to_text (string_at alphabet ?d) @ result) (carry div 58)"
      using 1(1)[OF False 1(2)] by simp
    also have "\<dots> = DecodeInt_loop (AlphabetLookup t) result (carry div 58 * 58 + ?d)"
      using S(5)[of ?d] sym by simp
    also have "carry div 58 * 58 + ?d = carry" by simp
    finally show ?thesis .
  qed
qed

lemma EncodeInt_loop_nonempty:
  assumes "Base58Encoding_new a = Inr t" "n \<noteq> 0"
  shows "EncodeInt_loop a n [] \<noteq> []"
proof
  assume "EncodeInt_loop a n [] = []"
  with DecodeInt_loop_EncodeInt_loop[OF assms(1), of n "[]"] assms(2) show False by simp
qed

lemma DecodeInt_value:
  assumes "Base58Encoding_new a = Inr t" "s \<noteq> []"
  shows "DecodeInt t s =
     (case DecodeInt_loop (AlphabetLookup t) s 0 of None \<Rightarrow> NaN | Some r \<Rightarrow> Finite (of_nat r))"
    and "DecodeBigInt t s =
     (case DecodeInt_loop (AlphabetLookup t) s 0 of
        None \<Rightarrow> Inl Invalid_Base58_encoded_integer | Some r \<Rightarrow> Inr r)"
proof -
  note S = Base58Encoding_new_slots[OF assms(1)]
  note Z = Base58Encoding_new_zeroChar[OF assms(1)]
  from S(5)[of 0] have z: "AlphabetLookup t (a ! 0) = Some 0" by simp
  have "drop (string_leadingZeros t s) s = dropWhile (\<lambda>c. Some c = Some (a ! 0)) s"
    by (simp add: string_leadingZeros_def Z(1) drop_leading_run)
  then have eq: "DecodeInt_loop (AlphabetLookup t) (drop (string_leadingZeros t s) s) 0 =
      DecodeInt_loop (AlphabetLookup t) s 0"
    using DecodeInt_loop_skips_zeros[of "AlphabetLookup t" "a ! 0" s] z by simp
  from assms(2) eq show "DecodeInt t s =
     (case DecodeInt_loop (AlphabetLookup t) s 0 of None \<Rightarrow> NaN | Some r \<Rightarrow> Finite (of_nat r))"
    by (simp add: DecodeInt_def Let_def)
  from assms(2) eq show "DecodeBigInt t s =
     (case DecodeInt_loop (AlphabetLookup t) s 0 of
        None \<Rightarrow> Inl Invalid_Base58_encoded_integer | Some r \<Rightarrow> Inr r)"
    by (simp add: DecodeBigInt_def Let_def)
qed

lemma DecodeInt_EncodeInt:
  assumes "Base58Encoding_new a = Inr t"
  shows "DecodeInt t (EncodeInt t n) = Finite (of_nat n)"
    and "DecodeBigInt t (EncodeBigInt t n) = Inr n"
    and "EncodeInt t 0 = [a ! 0]"
proof -
  note S = Base58Encoding_new_slots[OF assms]
  have zero: "to_text (string_at a 0) = [a ! 0]"
    using S(2) by (simp add: to_text_def string_at_def)
  have loop: "DecodeInt_loop (AlphabetLookup t) (EncodeInt t n) 0 = Some n"
    and ne: "EncodeInt t n \<noteq> []" and same: "EncodeBigInt t n = EncodeInt t n"
  proof -
    show "EncodeBigInt t n = EncodeInt t n" by (simp add: EncodeBigInt_def EncodeInt_def)
    show "EncodeInt t n \<noteq> []"
      using EncodeInt_loop_nonempty[OF assms, of n] zero S(1)
      by (simp add: EncodeInt_def Let_def)
    show "DecodeInt_loop (AlphabetLookup t) (EncodeInt t n) 0 = Some n"
    proof (cases "n = 0")
      case True
      with zero S(1) S(5)[of 0] show ?thesis by (simp add: EncodeInt_def Let_def)
    next
      case False
      with DecodeInt_loop_EncodeInt_loop[OF assms, of n "[]"] S(1) show ?thesis
        by (simp add: EncodeInt_def Let_def)
    qed
  qed
  from DecodeInt_value(1)[OF assms ne] loop show "DecodeInt t (EncodeInt t n) = Finite (of_nat n)"
    by simp
  from DecodeInt_value(2)[OF assms ne] loop same show "DecodeBigInt t (EncodeBigInt t n) = Inr n"
    by simp
  from zero S(1) show "EncodeInt t 0 = [a ! 0]" by (simp add: EncodeInt_def Let_def)
qed

section \<open>The presets are constructed\<close>

text \<open>Both preset alphabets pass the constructor, so \<open>BASIC\<close> and \<open>DARKWOLF\<close> are the
  objects it returns.\<close>

lemma BASIC_new: "Base58Encoding_new BASIC_alphabet = Inr BASIC"
proof -
  have "\<exists>t. Base58Encoding_new BASIC_alphabet = Inr t"
    by (rule Base58Encoding_new_accepts)
       (auto simp: BASIC_alphabet_def str_def IsBase58CharCode_def)
  then show ?thesis by (auto simp: BASIC_def)
qed

lemma DARKWOLF_new: "Base58Encoding_new DARKWOLF_alphabet = Inr DARKWOLF"
proof -
  have "\<exists>t. Base58Encoding_new DARKWOLF_alphabet = Inr t"
    by (rule Base58Encoding_new_accepts)
       (auto simp: DARKWOLF_alphabet_def str_def IsBase58CharCode_def)
  then show ?thesis by (auto simp: DARKWOLF_def)
qed

text \<open>The slots of \<open>BASIC\<close> in the form the simplifier evaluates.\<close>

lemma BASIC_alphabet_codes:
  "BASIC_alphabet = [49, 50, 51, 52, 53, 54, 55, 56, 57, 65, 66, 67, 68, 69, 70, 71, 72, 74, 75, 76, 77, 78, 80, 81, 82, 83, 84, 85, 86, 87, 88, 89, 90, 97, 98, 99, 100, 101, 102, 103, 104, 105, 106, 107, 109, 110, 111, 112, 113, 114, 115, 116, 117, 118, 119, 120, 121, 122]"
  by (simp add: BASIC_alphabet_def str_def)

lemma BASIC_slots:
  "Alphabet BASIC = BASIC_alphabet"
  "BaseMapLookup BASIC = map_of (zip BASIC_alphabet [0..<58])"
  "BaseMap BASIC = map_of (zip [0..<58] BASIC_alphabet)"
  using Base58Encoding_new_slots(1)[OF BASIC_new] Base58Encoding_new_maps(2,3)[OF BASIC_new]
  by simp_all

lemmas BASIC_eval = BASIC_slots BASIC_alphabet_codes upt_conv_Cons

lemmas run_eval = leading_run_def GetCapacity_code GetInverseCapacity_code least_exponent.simps
  encode_carry_unfold decode_carry_unfold typed_get_def typed_set_def to_text_def to_uint8_def
  string_at_def str_def BASIC_eval upto_rec1

section \<open>Claims\<close>

text \<open>
  Claim C1 says that decoding the encoding of any byte sequence returns the sequence.
  On the code it fails at the single zero byte. The encoders compute capacity 0 for an
  input of zero bytes only, so \<^verbatim>\<open>offset = lastIndex = -1\<close> and the output loop
  runs once on \<^verbatim>\<open>bytes[-1]\<close>: \<open>EncodeBytesToString\<close> appends the text
  \<^verbatim>\<open>undefined\<close>, \<open>EncodeBytes\<close> appends the byte 0. Decoding these results does not
  give the zero byte back.
\<close>

theorem round_trip_fails_on_zero_byte:
  "EncodeBytesToString BASIC [0] = str ''1undefined'' \<and>
   DecodeToBytes BASIC (EncodeBytesToString BASIC [0]) = Inr [0, 24, 4, 55, 60, 240, 230, 66] \<and>
   EncodeBytes BASIC [0] = [49, 0] \<and>
   DecodeBytes BASIC (EncodeBytes BASIC [0]) = Inl Invalid_Base58_encoding"
proof -
  have e: "EncodeBytesToString BASIC [0] = str ''1undefined''"
    unfolding EncodeBytesToString_def Let_def by (simp add: run_eval)
  have d: "DecodeToBytes BASIC (str ''1undefined'') = Inr [0, 24, 4, 55, 60, 240, 230, 66]"
    unfolding DecodeToBytes_def string_decode_capacity_def string_leadingZeros_def Let_def
    by (simp add: run_eval)
  have eb: "EncodeBytes BASIC [0] = [49, 0]"
    unfolding EncodeBytes_def Let_def by (simp add: run_eval)
  have db: "DecodeBytes BASIC [49, 0] = Inl Invalid_Base58_encoding"
    unfolding DecodeBytes_def bytes_decode_capacity_def bytes_leadingZeros_def Let_def
    by (simp add: run_eval)
  from e d eb db show ?thesis by simp
qed

text \<open>
  Claim C2 says that \<open>k\<close> leading zero bytes become \<open>k\<close> leading zero symbols and
  come back as \<open>k\<close> zero bytes from the matching decoder. On two zero bytes followed
  by \<^verbatim>\<open>0xff\<close> the encoders do so, and so does the string decoder;
  \<open>DecodeBytes\<close> and \<open>DecodeBytesToString\<close> do not. They take the
  zero symbol from \<^verbatim>\<open>MapGet(baseMapLookup, 0)\<close>, the lookup of char code 0, which is
  \<^verbatim>\<open>undefined\<close>: no byte equals it, no leading zero is counted, and the zero symbols
  are folded into the number as digits 0.
\<close>

theorem byte_decoders_drop_leading_zeros:
  "EncodeBytes BASIC [0, 0, 255] = [49, 49, 53, 81] \<and>
   DecodeBytes BASIC (EncodeBytes BASIC [0, 0, 255]) = Inr [255] \<and>
   DecodeBytesToString BASIC (EncodeBytes BASIC [0, 0, 255]) = Inr [255] \<and>
   EncodeBytesToString BASIC [0, 0, 255] = str ''115Q'' \<and>
   DecodeToBytes BASIC (EncodeBytesToString BASIC [0, 0, 255]) = Inr [0, 0, 255]"
proof -
  have eb: "EncodeBytes BASIC [0, 0, 255] = [49, 49, 53, 81]"
    unfolding EncodeBytes_def Let_def by (simp add: run_eval)
  have db: "DecodeBytes BASIC [49, 49, 53, 81] = Inr [255]"
    unfolding DecodeBytes_def bytes_decode_capacity_def bytes_leadingZeros_def Let_def
    by (simp add: run_eval)
  have ds: "DecodeBytesToString BASIC [49, 49, 53, 81] = Inr [255]"
    unfolding DecodeBytesToString_def bytes_decode_capacity_def bytes_leadingZeros_def Let_def
    by (simp add: run_eval)
  have es: "EncodeBytesToString BASIC [0, 0, 255] = str ''115Q''"
    unfolding EncodeBytesToString_def Let_def by (simp add: run_eval)
  have d: "DecodeToBytes BASIC (str ''115Q'') = Inr [0, 0, 255]"
    unfolding DecodeToBytes_def string_decode_capacity_def string_leadingZeros_def Let_def
    by (simp add: run_eval)
  from eb db ds es d show ?thesis by simp
qed

text \<open>
  Claim C3 says that the constructor rejects every alphabet holding a character outside
  the Base58 ranges, \<^verbatim>\<open>I\<close> and \<^verbatim>\<open>l\<close> among them. \<open>IsBase58CharCode\<close> leaves out
  \<^verbatim>\<open>0\<close> and \<^verbatim>\<open>O\<close> but tests the ranges A to N and a to z whole, so an alphabet
  with \<^verbatim>\<open>I\<close> and \<^verbatim>\<open>l\<close> is accepted.
\<close>

theorem constructor_accepts_I_and_l:
  "IsBase58CharCode (of_char CHR ''I'') \<and> IsBase58CharCode (of_char CHR ''l'') \<and>
   (\<exists>t. Base58Encoding_new
          (str ''123456789ABCDEFGHJKLMNPQRSTUVWXYZabcdefghijkmnopqrstuvwxIl'') = Inr t)"
proof -
  have "\<exists>t. Base58Encoding_new
          (str ''123456789ABCDEFGHJKLMNPQRSTUVWXYZabcdefghijkmnopqrstuvwxIl'') = Inr t"
    by (rule Base58Encoding_new_accepts) (auto simp: str_def IsBase58CharCode_def)
  then show ?thesis by (simp add: IsBase58CharCode_def)
qed

text \<open>
  Claim C4 says that every decoder allocates a buffer of
  \<open>ceil((length - leadingZeros) * log 58 / log 256)\<close> cells. \<open>Decode\<close> and
  \<open>DecodeToBytes\<close> call \<^verbatim>\<open>GetCapacity\<close>, the encoders' bound with the inverse
  factor: for the one-symbol input \<^verbatim>\<open>2\<close> they allocate 2 cells where the claim
  says 1. \<open>DecodeBytes\<close> and \<open>DecodeBytesToString\<close> call
  \<^verbatim>\<open>GetInverseCapacity\<close> but never count a leading zero symbol: for the input
  \<^verbatim>\<open>12\<close>, whose first symbol is the zero symbol, they allocate 2 cells where the
  claim says 1.
\<close>

theorem decoder_capacities:
  "string_decode_capacity BASIC (str ''2'') = 2 \<and>
   GetInverseCapacity (length (str ''2'') - string_leadingZeros BASIC (str ''2'')) = 1 \<and>
   bytes_decode_capacity BASIC [49, 50] = 2 \<and>
   GetInverseCapacity (length [49, 50 :: nat] -
     leading_run (\<lambda>b. Some b = BaseMap BASIC 0) [49, 50]) = 1"
  unfolding string_decode_capacity_def bytes_decode_capacity_def string_leadingZeros_def
    bytes_leadingZeros_def Let_def
  by (simp add: run_eval)

text \<open>
  Claim C5. With the preset \<open>BASIC\<close>, the text \<^verbatim>\<open>Ave, Darkwolf!\<close> followed by
  three times the character U+1F43A (the surrogate pair D83D DC3A) is encoded as
  \<^verbatim>\<open>31GEC6Z1ppWwvCikxA5J7EaPFzPWhoJejFpV\<close>, and decoding that string as text gives
  the text back.
\<close>

theorem BASIC_test_vector:
  "EncodeText BASIC (str ''Ave, Darkwolf!'' @ [0xD83D, 0xDC3A, 0xD83D, 0xDC3A, 0xD83D, 0xDC3A]) =
     str ''31GEC6Z1ppWwvCikxA5J7EaPFzPWhoJejFpV'' \<and>
   DecodeText BASIC (str ''31GEC6Z1ppWwvCikxA5J7EaPFzPWhoJejFpV'') =
     Inr (Some (str ''Ave, Darkwolf!'' @ [0xD83D, 0xDC3A, 0xD83D, 0xDC3A, 0xD83D, 0xDC3A]))"
proof -
  let ?bytes = "[65, 118, 101, 44, 32, 68, 97, 114, 107, 119, 111, 108, 102, 33,
    240, 159, 144, 186, 240, 159, 144, 186, 240, 159, 144, 186] :: nat list"
  have utf8: "UTF8Encode (str ''Ave, Darkwolf!'' @ [0xD83D, 0xDC3A, 0xD83D, 0xDC3A, 0xD83D, 0xDC3A])
      = ?bytes"
    by (simp add: str_def utf8_bytes_def)
  have enc: "EncodeBytesToString BASIC ?bytes = str ''31GEC6Z1ppWwvCikxA5J7EaPFzPWhoJejFpV''"
    unfolding EncodeBytesToString_def Let_def by (simp add: run_eval)
  have dec: "DecodeToBytes BASIC (str ''31GEC6Z1ppWwvCikxA5J7EaPFzPWhoJejFpV'') = Inr ?bytes"
    unfolding DecodeToBytes_def string_decode_capacity_def string_leadingZeros_def Let_def
    by (simp add: run_eval)
  have utf16: "UTF8Decode ?bytes =
      Some (str ''Ave, Darkwolf!'' @ [0xD83D, 0xDC3A, 0xD83D, 0xDC3A, 0xD83D, 0xDC3A])"
    by (simp add: UTF8Decode.simps utf8_next_def utf8_length_def utf8_code_point_def
          utf8_bytes_def utf16_units_def str_def Let_def)
  from utf8 enc dec utf16 show ?thesis by (simp add: EncodeText_def DecodeText_def)
qed

text \<open>
  Claim C6. For an encoding built by the constructor from the alphabet \<open>a\<close>, every
  input string that holds a character that is not in \<open>a\<close> makes \<open>Decode\<close> and
  \<open>DecodeToBytes\<close> throw \<^verbatim>\<open>RangeError('Invalid Base58 encoding')\<close>: the result
  is the error alone, no output.
\<close>

theorem decode_rejects_foreign_symbol:
  assumes "Base58Encoding_new a = Inr t" and "c \<in> set s" and "c \<notin> set a"
  shows "Decode t s = Inl Invalid_Base58_encoding \<and>
         DecodeToBytes t s = Inl Invalid_Base58_encoding"
proof -
  note S = Base58Encoding_new_slots[OF assms(1)]
  note Z = Base58Encoding_new_zeroChar[OF assms(1)]
  from assms(3) Z(2) have "c \<noteq> a ! 0" by auto
  with assms(2) have "c \<in> set (dropWhile (\<lambda>x. Some x = Some (a ! 0)) s)"
    by (intro set_dropWhile_keeps) simp_all
  then have "c \<in> set (drop (string_leadingZeros t s) s)"
    by (simp add: string_leadingZeros_def Z(1) drop_leading_run)
  with S(9)[OF assms(3)]
  have "\<exists>x \<in> set (drop (string_leadingZeros t s) s). BaseMapLookup t x = None" by blast
  note R = decode_loop_rejects[OF this]
  from assms(2) have "length s \<noteq> 0" by auto
  with R show ?thesis by (simp add: Decode_def DecodeToBytes_def Let_def)
qed

theorem decode_rejects_foreign_symbol_witness:
  "Decode BASIC (str ''2x0'') = Inl Invalid_Base58_encoding \<and>
   DecodeToBytes BASIC (str ''2x0'') = Inl Invalid_Base58_encoding"
  using decode_rejects_foreign_symbol[OF BASIC_new, of "of_char CHR ''0''" "str ''2x0''"]
  by (simp add: str_def BASIC_alphabet_def)

text \<open>
  Claim C8. On the empty string and on every string that holds a character that is not
  in the alphabet, \<open>DecodeInt\<close> returns \<^verbatim>\<open>NaN\<close> and \<open>DecodeBigInt\<close> throws
  \<^verbatim>\<open>RangeError('Invalid Base58 encoded integer')\<close>.
\<close>

theorem decodeInt_sentinel_decodeBigInt_error:
  assumes "Base58Encoding_new a = Inr t" and "s = [] \<or> (\<exists>c \<in> set s. c \<notin> set a)"
  shows "DecodeInt t s = NaN \<and> DecodeBigInt t s = Inl Invalid_Base58_encoded_integer"
proof (cases "s = []")
  case True
  then show ?thesis by (simp add: DecodeInt_def DecodeBigInt_def)
next
  case False
  with assms(2) obtain c where c: "c \<in> set s" "c \<notin> set a" by auto
  note S = Base58Encoding_new_slots[OF assms(1)]
  from c S(8) have "\<exists>c \<in> set s. AlphabetLookup t c = None" by blast
  then have "DecodeInt_loop (AlphabetLookup t) s 0 = None" by (rule DecodeInt_loop_rejects)
  with DecodeInt_value[OF assms(1) False] show ?thesis by simp
qed

theorem decodeInt_sentinel_decodeBigInt_error_witness:
  "(DecodeInt BASIC [] = NaN \<and> DecodeBigInt BASIC [] = Inl Invalid_Base58_encoded_integer) \<and>
   (DecodeInt BASIC (str ''2l'') = NaN \<and>
    DecodeBigInt BASIC (str ''2l'') = Inl Invalid_Base58_encoded_integer)"
  using decodeInt_sentinel_decodeBigInt_error[OF BASIC_new, of "[]"]
    decodeInt_sentinel_decodeBigInt_error[OF BASIC_new, of "str ''2l''"]
  by (simp add: str_def BASIC_alphabet_def)

text \<open>
  Claim C7. For every non-negative integer \<open>n\<close> below \<open>2 ^ 53\<close> (the integers a
  JavaScript number holds exactly), \<^verbatim>\<open>encodeInt\<close> accepts \<open>n\<close>, decoding its result
  with \<open>DecodeInt\<close> gives \<open>n\<close> back, and \<^verbatim>\<open>encodeInt(0)\<close> is the one-character
  string of the alphabet's first character.
\<close>

theorem decodeInt_encodeInt_round_trip:
  assumes "Base58Encoding_new a = Inr t" and "n < 2 ^ 53"
  shows "encodeInt t (Finite (of_nat n)) = Inr (EncodeInt t n) \<and>
         DecodeInt t (EncodeInt t n) = Finite (of_nat n) \<and>
         encodeInt t (Finite 0) = Inr [a ! 0]"
proof -
  have "ToIntegerOrInfinity (Finite (of_nat n)) = Integer (int n)"
    by (simp add: ToIntegerOrInfinity_def)
  then have "encodeInt t (Finite (of_nat n)) = Inr (EncodeInt t n)"
    by (simp add: encodeInt_def)
  moreover have "encodeInt t (Finite 0) = Inr (EncodeInt t 0)"
    by (simp add: encodeInt_def ToIntegerOrInfinity_def)
  ultimately show ?thesis using DecodeInt_EncodeInt(1,3)[OF assms(1)] by simp
qed

theorem decodeInt_encodeInt_round_trip_witness:
  "encodeInt BASIC (Finite 3364) = Inr (EncodeInt BASIC 3364) \<and>
   DecodeInt BASIC (EncodeInt BASIC 3364) = Finite 3364 \<and>
   encodeInt BASIC (Finite 0) = Inr (str ''1'')"
  using decodeInt_encodeInt_round_trip[OF BASIC_new, of 3364]
  by (simp add: str_def BASIC_alphabet_def)

text \<open>
  Claim C9, as stated, fails: \<^verbatim>\<open>encodeInt(NaN)\<close> does not throw. The coercion turns
  \<^verbatim>\<open>NaN\<close> into 0, and the result is the zero symbol; so is the result
  for the negative input \<open>-1/2\<close>, which is truncated to 0.
\<close>

theorem encodeInt_accepts_NaN:
  "encodeInt BASIC NaN = Inr (str ''1'') \<and> encodeInt BASIC (Finite (- 1 / 2)) = Inr (str ''1'')"
proof -
  have "ToIntegerOrInfinity (Finite (- 1 / 2)) = Integer 0"
    by (simp add: ToIntegerOrInfinity_def ceiling_eq_iff)
  moreover have "EncodeInt BASIC 0 = str ''1''"
    using DecodeInt_EncodeInt(3)[OF BASIC_new] by (simp add: str_def BASIC_alphabet_def)
  ultimately show ?thesis by (simp add: encodeInt_def ToIntegerOrInfinity_def)
qed

text \<open>
  Claim C9, amended. \<^verbatim>\<open>encodeInt\<close> throws for both infinities and for every finite
  input \<open>r \<le> -1\<close>; a finite input above \<open>-1\<close> is truncated and encoded, and
  \<^verbatim>\<open>NaN\<close> is encoded as 0. \<^verbatim>\<open>encodeBigInt\<close> throws for every negative input.
\<close>

theorem encodeInt_rejects_negative_and_infinite:
  "encodeInt t NegInfinity = Inl Integer_cannot_be_negative \<and>
   encodeInt t PosInfinity = Inl Integer_is_not_finite \<and>
   (r \<le> - 1 \<longrightarrow> encodeInt t (Finite r) = Inl Integer_cannot_be_negative) \<and>
   (- 1 < r \<longrightarrow> encodeInt t (Finite r) = Inr (EncodeInt t (nat \<lfloor>r\<rfloor>))) \<and>
   encodeInt t NaN = Inr (EncodeInt t 0) \<and>
   (b < 0 \<longrightarrow> encodeBigInt t b = Inl Bigint_cannot_be_negative)"
proof -
  have neg: "\<lceil>r\<rceil> < 0" if "r \<le> - 1" using that by (simp add: ceiling_less_iff)
  have small: "\<not> \<lceil>r\<rceil> < 0 \<and> nat \<lceil>r\<rceil> = nat \<lfloor>r\<rfloor>" if "- 1 < r" "r < 0"
  proof -
    from that have "\<lceil>r\<rceil> = 0" by (intro ceiling_unique) simp_all
    moreover from that have "\<lfloor>r\<rfloor> = - 1" by (intro floor_unique) simp_all
    ultimately show ?thesis by simp
  qed
  show ?thesis
    using neg small by (auto simp: encodeInt_def encodeBigInt_def ToIntegerOrInfinity_def)
qed

theorem encodeInt_rejects_negative_and_infinite_witness:
  "encodeInt BASIC NegInfinity = Inl Integer_cannot_be_negative \<and>
   encodeInt BASIC PosInfinity = Inl Integer_is_not_finite \<and>
   encodeInt BASIC (Finite (- 5 / 2)) = Inl Integer_cannot_be_negative \<and>
   encodeBigInt BASIC (- 7) = Inl Bigint_cannot_be_negative"
  using encodeInt_rejects_negative_and_infinite[of BASIC "- 5 / 2" "- 7"]
  by simp

text \<open>
  Claim C10 says that the constructor fails for every string of 1 to 57 characters and
  succeeds only for 58 distinct allowed characters. The first half holds
  (\<open>Base58Encoding_new_short\<close>). The second fails on the code: the string below has 58
  distinct characters, among them \<^verbatim>\<open>l\<close>, which the spec does not allow, and the
  constructor returns an object for it, since \<open>IsBase58CharCode\<close> tests the range a to z
  whole.
\<close>

theorem constructor_succeeds_with_disallowed_character:
  "(\<exists>t. Base58Encoding_new
          (str ''123456789ABCDEFGHJKLMNPQRSTUVWXYZabcdefghijklmnopqrstuvwxy'') = Inr t) \<and>
   \<not> list_all spec_allowed_character
       (str ''123456789ABCDEFGHJKLMNPQRSTUVWXYZabcdefghijklmnopqrstuvwxy'') \<and>
   Base58Encoding_new (str ''123456789'') = Inl Invalid_alphabet"
proof -
  have "\<exists>t. Base58Encoding_new
          (str ''123456789ABCDEFGHJKLMNPQRSTUVWXYZabcdefghijklmnopqrstuvwxy'') = Inr t"
    by (rule Base58Encoding_new_accepts) (auto simp: str_def IsBase58CharCode_def)
  moreover have "\<not> list_all spec_allowed_character
       (str ''123456789ABCDEFGHJKLMNPQRSTUVWXYZabcdefghijklmnopqrstuvwxy'')"
    by (simp add: str_def spec_allowed_character_def)
  moreover have "Base58Encoding_new (str ''123456789'') = Inl Invalid_alphabet"
    by (rule Base58Encoding_new_short) (simp_all add: str_def)
  ultimately show ?thesis by blast
qed

end
